theory Spec2Isabelle
  imports Main "HOL-Library.Word"
begin

unbundle bit_operations_syntax

section \<open>Data model of rs485main.c\<close>

text \<open>
  The target is an 8051 (Keil C51): \<open>uchar\<close> is an 8-bit and \<open>uint\<close> a 16-bit unsigned
  integer, and \<open>int\<close> is 16 bits wide, so every arithmetic result that is stored in or
  compared with a \<open>uint\<close> is a value modulo \<open>2 ^ 16\<close>.
\<close>

type_synonym uchar = "8 word"
type_synonym uint = "16 word"

text \<open>
  The character display is driven through \<open>LcdWriteCmd\<close> and \<open>LcdWriteData\<close>, which
  put one byte on the data bus with the register-select pin low (command) or high (data).
  The model keeps the sequence of these bus writes.
\<close>

datatype lcd_op = Cmd uchar | Dat uchar

text \<open>
  C does not check array accesses. An access outside the array it names is recorded as a
  fault instead of being given a meaning.
\<close>

datatype fault = Read_out_of_bounds | Write_out_of_bounds

text \<open>
  The global variables of the program (lines 23 to 32), the direction pin \<open>RE_485\<close>, and
  the two output traces: the bytes handed to the serial port and the display bus writes.
\<close>

record state =
  UART1_ucRec_Flag :: uchar
  receBuf :: "uchar list"
  receTimeOut :: uchar
  receCount :: uchar
  fasongbiaozhi :: uchar
  Rressure :: uint
  gCount :: uint
  crcData :: uint
  RE_485 :: bool
  uart_tx :: "uchar list"
  lcd :: "lcd_op list"

text \<open>\<open>uchar receBuf[9]\<close>: the receive buffer has nine entries.\<close>

definition wf_state :: "state \<Rightarrow> bool" where
  "wf_state s \<longleftrightarrow> length (receBuf s) = 9"

abbreviation (input) TRUE :: uchar where "TRUE \<equiv> 1"
abbreviation (input) FALSE :: uchar where "FALSE \<equiv> 0"

section \<open>CRC16 checksum engine\<close>

definition auchCRCHi :: "uchar list" where
  "auchCRCHi = [
    0x00, 0xC1, 0x81, 0x40, 0x01, 0xC0, 0x80, 0x41, 0x01, 0xC0,
    0x80, 0x41, 0x00, 0xC1, 0x81, 0x40, 0x01, 0xC0, 0x80, 0x41,
    0x00, 0xC1, 0x81, 0x40, 0x00, 0xC1, 0x81, 0x40, 0x01, 0xC0,
    0x80, 0x41, 0x01, 0xC0, 0x80, 0x41, 0x00, 0xC1, 0x81, 0x40,
    0x00, 0xC1, 0x81, 0x40, 0x01, 0xC0, 0x80, 0x41, 0x00, 0xC1,
    0x81, 0x40, 0x01, 0xC0, 0x80, 0x41, 0x01, 0xC0, 0x80, 0x41,
    0x00, 0xC1, 0x81, 0x40, 0x01, 0xC0, 0x80, 0x41, 0x00, 0xC1,
    0x81, 0x40, 0x00, 0xC1, 0x81, 0x40, 0x01, 0xC0, 0x80, 0x41,
    0x00, 0xC1, 0x81, 0x40, 0x01, 0xC0, 0x80, 0x41, 0x01, 0xC0,
    0x80, 0x41, 0x00, 0xC1, 0x81, 0x40, 0x00, 0xC1, 0x81, 0x40,
    0x01, 0xC0, 0x80, 0x41, 0x01, 0xC0, 0x80, 0x41, 0x00, 0xC1,
    0x81, 0x40, 0x01, 0xC0, 0x80, 0x41, 0x00, 0xC1, 0x81, 0x40,
    0x00, 0xC1, 0x81, 0x40, 0x01, 0xC0, 0x80, 0x41, 0x01, 0xC0,
    0x80, 0x41, 0x00, 0xC1, 0x81, 0x40, 0x00, 0xC1, 0x81, 0x40,
    0x01, 0xC0, 0x80, 0x41, 0x00, 0xC1, 0x81, 0x40, 0x01, 0xC0,
    0x80, 0x41, 0x01, 0xC0, 0x80, 0x41, 0x00, 0xC1, 0x81, 0x40,
    0x00, 0xC1, 0x81, 0x40, 0x01, 0xC0, 0x80, 0x41, 0x01, 0xC0,
    0x80, 0x41, 0x00, 0xC1, 0x81, 0x40, 0x01, 0xC0, 0x80, 0x41,
    0x00, 0xC1, 0x81, 0x40, 0x00, 0xC1, 0x81, 0x40, 0x01, 0xC0,
    0x80, 0x41, 0x00, 0xC1, 0x81, 0x40, 0x01, 0xC0, 0x80, 0x41,
    0x01, 0xC0, 0x80, 0x41, 0x00, 0xC1, 0x81, 0x40, 0x01, 0xC0,
    0x80, 0x41, 0x00, 0xC1, 0x81, 0x40, 0x00, 0xC1, 0x81, 0x40,
    0x01, 0xC0, 0x80, 0x41, 0x01, 0xC0, 0x80, 0x41, 0x00, 0xC1,
    0x81, 0x40, 0x00, 0xC1, 0x81, 0x40, 0x01, 0xC0, 0x80, 0x41,
    0x00, 0xC1, 0x81, 0x40, 0x01, 0xC0, 0x80, 0x41, 0x01, 0xC0,
    0x80, 0x41, 0x00, 0xC1, 0x81, 0x40
  ]"

definition auchCRCLo :: "uchar list" where
  "auchCRCLo = [
    0x00, 0xC0, 0xC1, 0x01, 0xC3, 0x03, 0x02, 0xC2, 0xC6, 0x06,
    0x07, 0xC7, 0x05, 0xC5, 0xC4, 0x04, 0xCC, 0x0C, 0x0D, 0xCD,
    0x0F, 0xCF, 0xCE, 0x0E, 0x0A, 0xCA, 0xCB, 0x0B, 0xC9, 0x09,
    0x08, 0xC8, 0xD8, 0x18, 0x19, 0xD9, 0x1B, 0xDB, 0xDA, 0x1A,
    0x1E, 0xDE, 0xDF, 0x1F, 0xDD, 0x1D, 0x1C, 0xDC, 0x14, 0xD4,
    0xD5, 0x15, 0xD7, 0x17, 0x16, 0xD6, 0xD2, 0x12, 0x13, 0xD3,
    0x11, 0xD1, 0xD0, 0x10, 0xF0, 0x30, 0x31, 0xF1, 0x33, 0xF3,
    0xF2, 0x32, 0x36, 0xF6, 0xF7, 0x37, 0xF5, 0x35, 0x34, 0xF4,
    0x3C, 0xFC, 0xFD, 0x3D, 0xFF, 0x3F, 0x3E, 0xFE, 0xFA, 0x3A,
    0x3B, 0xFB, 0x39, 0xF9, 0xF8, 0x38, 0x28, 0xE8, 0xE9, 0x29,
    0xEB, 0x2B, 0x2A, 0xEA, 0xEE, 0x2E, 0x2F, 0xEF, 0x2D, 0xED,
    0xEC, 0x2C, 0xE4, 0x24, 0x25, 0xE5, 0x27, 0xE7, 0xE6, 0x26,
    0x22, 0xE2, 0xE3, 0x23, 0xE1, 0x21, 0x20, 0xE0, 0xA0, 0x60,
    0x61, 0xA1, 0x63, 0xA3, 0xA2, 0x62, 0x66, 0xA6, 0xA7, 0x67,
    0xA5, 0x65, 0x64, 0xA4, 0x6C, 0xAC, 0xAD, 0x6D, 0xAF, 0x6F,
    0x6E, 0xAE, 0xAA, 0x6A, 0x6B, 0xAB, 0x69, 0xA9, 0xA8, 0x68,
    0x78, 0xB8, 0xB9, 0x79, 0xBB, 0x7B, 0x7A, 0xBA, 0xBE, 0x7E,
    0x7F, 0xBF, 0x7D, 0xBD, 0xBC, 0x7C, 0xB4, 0x74, 0x75, 0xB5,
    0x77, 0xB7, 0xB6, 0x76, 0x72, 0xB2, 0xB3, 0x73, 0xB1, 0x71,
    0x70, 0xB0, 0x50, 0x90, 0x91, 0x51, 0x93, 0x53, 0x52, 0x92,
    0x96, 0x56, 0x57, 0x97, 0x55, 0x95, 0x94, 0x54, 0x9C, 0x5C,
    0x5D, 0x9D, 0x5F, 0x9F, 0x9E, 0x5E, 0x5A, 0x9A, 0x9B, 0x5B,
    0x99, 0x59, 0x58, 0x98, 0x88, 0x48, 0x49, 0x89, 0x4B, 0x8B,
    0x8A, 0x4A, 0x4E, 0x8E, 0x8F, 0x4F, 0x8D, 0x4D, 0x4C, 0x8C,
    0x44, 0x84, 0x85, 0x45, 0x87, 0x47, 0x46, 0x86, 0x82, 0x42,
    0x43, 0x83, 0x41, 0x81, 0x80, 0x40
  ]"

text \<open>
  The loop of \<open>crc16\<close> (lines 113 to 117). \<open>puchMsg\<close> is the array the pointer walks
  over and \<open>p\<close> the offset the pointer has reached; \<open>usDataLen\<close> is the 16-bit
  down-counter tested and decremented by \<open>while (usDataLen--)\<close>. On exit the function
  returns \<open>uchCRCHi << 8 | uchCRCLo\<close> as a 16-bit value (line 119).
\<close>

function crc16_loop :: "uchar list \<Rightarrow> nat \<Rightarrow> uint \<Rightarrow> uchar \<Rightarrow> uchar \<Rightarrow> fault + uint" where
  "crc16_loop puchMsg p usDataLen uchCRCHi uchCRCLo =
     (if usDataLen = 0 then Inr (push_bit 8 (ucast uchCRCHi) OR ucast uchCRCLo)
      else if p < length puchMsg then
        (let uIndex = unat (uchCRCHi XOR puchMsg ! p)
         in crc16_loop puchMsg (p + 1) (usDataLen - 1)
              (uchCRCLo XOR auchCRCHi ! uIndex) (auchCRCLo ! uIndex))
      else Inl Read_out_of_bounds)"
  by pat_completeness auto
termination
  by (relation "measure (\<lambda>(puchMsg, p, usDataLen, uchCRCHi, uchCRCLo). unat usDataLen)")
     (auto simp: unat_minus_one unat_gt_0)

declare crc16_loop.simps [simp del]

definition crc16 :: "uchar list \<Rightarrow> uint \<Rightarrow> fault + uint" where
  "crc16 puchMsg usDataLen = crc16_loop puchMsg 0 usDataLen 0xFF 0xFF"

section \<open>Display and serial output\<close>

text \<open>
  \<open>LcdWriteCmd\<close> and \<open>LcdWriteData\<close> (lines 139 to 165) strobe one byte onto the display
  bus. The delays between the pin changes are not modelled.
\<close>

definition LcdWriteCmd :: "uchar \<Rightarrow> state \<Rightarrow> state" where
  "LcdWriteCmd cmd s = s\<lparr>lcd := lcd s @ [Cmd cmd]\<rparr>"

definition LcdWriteData :: "uchar \<Rightarrow> state \<Rightarrow> state" where
  "LcdWriteData dat s = s\<lparr>lcd := lcd s @ [Dat dat]\<rparr>"

text \<open>\<open>LcdGotoXY\<close> (lines 183 to 191): two independent tests on the line number.\<close>

definition LcdGotoXY :: "uchar \<Rightarrow> uchar \<Rightarrow> state \<Rightarrow> state" where
  "LcdGotoXY line column s =
     (let s1 = (if line = 0 then LcdWriteCmd (0x80 + column) s else s)
      in if line = 1 then LcdWriteCmd (0x80 + 0x40 + column) s1 else s1)"

text \<open>
  \<open>LcdPrintNum\<close> (lines 198 to 206): five digits, most significant first. The quotients
  are computed on the 16-bit \<open>num\<close> and narrowed to the \<open>uchar\<close> parameter of
  \<open>LcdWriteData\<close>.
\<close>

definition LcdPrintNum :: "uint \<Rightarrow> state \<Rightarrow> state" where
  "LcdPrintNum num s =
     (let s1 = LcdWriteData (ucast (num div 10000 + 48)) s;
          s2 = LcdWriteData (ucast (num mod 10000 div 1000 + 48)) s1;
          s3 = LcdWriteData (ucast (num mod 1000 div 100 + 48)) s2;
          s4 = LcdWriteData (ucast (num mod 100 div 10 + 48)) s3
      in LcdWriteData (ucast (num mod 10 + 48)) s4)"

text \<open>
  \<open>UART_SendChar\<close> (lines 256 to 263) writes the byte to \<open>SBUF\<close> with the serial
  interrupt masked and waits for the hardware to report completion. The model appends the
  byte to the transmit trace.
\<close>

definition UART_SendChar :: "uchar \<Rightarrow> state \<Rightarrow> state" where
  "UART_SendChar date s = s\<lparr>uart_tx := uart_tx s @ [date]\<rparr>"

section \<open>Interrupt handlers\<close>

text \<open>
  \<open>UartInt\<close> (lines 333 to 351). The hardware flags \<open>TI\<close> and \<open>RI\<close> and the receive
  register \<open>SBUF\<close> are inputs of the handler. The store \<open>receBuf[receCount] = SBUF\<close> is
  not guarded in the source: outside the array it is a fault.
\<close>

definition UartInt :: "bool \<Rightarrow> bool \<Rightarrow> uchar \<Rightarrow> state \<Rightarrow> fault + state" where
  "UartInt TI RI SBUF s =
     (let s1 = (if TI then s\<lparr>UART1_ucRec_Flag := FALSE\<rparr> else s)
      in if RI then
           (let s2 = s1\<lparr>UART1_ucRec_Flag := TRUE, receTimeOut := 0\<rparr>
            in if unat (receCount s2) < length (receBuf s2)
               then Inr (s2\<lparr>receBuf := (receBuf s2)[unat (receCount s2) := SBUF],
                              receCount := receCount s2 + 1\<rparr>)
               else Inl Write_out_of_bounds)
         else Inr s1)"

text \<open>\<open>Timer0\<close> (lines 357 to 375), entered once per millisecond.\<close>

definition Timer0 :: "state \<Rightarrow> state" where
  "Timer0 s =
     (let s1 = s\<lparr>gCount := gCount s + 1\<rparr>;
          s2 = s1\<lparr>receTimeOut := receTimeOut s1 + 1\<rparr>;
          s3 = (if receTimeOut s2 > 100 then s2\<lparr>receTimeOut := 100\<rparr> else s2)
      in if gCount s3 > 100 then s3\<lparr>gCount := 0, fasongbiaozhi := 1\<rparr> else s3)"

text \<open>An interrupt request, with the hardware inputs of its handler.\<close>

datatype irq = Timer0_irq | Uart_irq bool bool uchar

fun irq_step :: "irq \<Rightarrow> state \<Rightarrow> fault + state" where
  "irq_step Timer0_irq s = Inr (Timer0 s)"
| "irq_step (Uart_irq TI RI SBUF) s = UartInt TI RI SBUF s"

text \<open>A sequence of interrupts served one after the other, stopping at the first fault.\<close>

fun run_irqs :: "irq list \<Rightarrow> state \<Rightarrow> fault + state" where
  "run_irqs [] s = Inr s"
| "run_irqs (e # es) s =
     (case irq_step e s of Inl f \<Rightarrow> Inl f | Inr s' \<Rightarrow> run_irqs es s')"

section \<open>Main loop\<close>

text \<open>The request frame sent by lines 285 to 292.\<close>

definition request_frame :: "uchar list" where
  "request_frame = [0x01, 0x03, 0x00, 0x00, 0x00, 0x01, 0x84, 0x0A]"

text \<open>The send block of the main loop (lines 281 to 296).\<close>

definition send_block :: "state \<Rightarrow> state" where
  "send_block s =
     (if fasongbiaozhi s = 1 then
        (let s1 = s\<lparr>RE_485 := True\<rparr>;
             s2 = UART_SendChar 0x01 s1;
             s3 = UART_SendChar 0x03 s2;
             s4 = UART_SendChar 0x00 s3;
             s5 = UART_SendChar 0x00 s4;
             s6 = UART_SendChar 0x00 s5;
             s7 = UART_SendChar 0x01 s6;
             s8 = UART_SendChar 0x84 s7;
             s9 = UART_SendChar 0x0A s8
         in s9\<lparr>RE_485 := False, fasongbiaozhi := 0, gCount := 0\<rparr>)
      else s)"

text \<open>
  The busy wait of lines 302 to 306. The loop body changes nothing: the variables it
  tests are changed by the interrupt handlers only. The interrupts served while the loop
  spins are an input of the model, one per iteration that does not leave the loop; when
  they run out while the loop condition still holds, the loop does not return (\<open>None\<close>).
\<close>

fun wait_loop :: "irq list \<Rightarrow> state \<Rightarrow> (fault + state) option" where
  "wait_loop [] s =
     (if receCount s \<le> 7 then (if receTimeOut s \<ge> 10 then Some (Inr s) else None)
      else Some (Inr s))"
| "wait_loop (e # es) s =
     (if receCount s \<le> 7 then
        (if receTimeOut s \<ge> 10 then Some (Inr s)
         else (case irq_step e s of Inl f \<Rightarrow> Some (Inl f) | Inr s' \<Rightarrow> wait_loop es s'))
      else Some (Inr s))"

text \<open>
  The two tests of the validator: the header test of line 308 and the checksum
  comparison of line 311, whose right-hand side \<open>receBuf[6] + (receBuf[5]*256)\<close> is
  compared with the 16-bit \<open>crcData\<close>. For \<open>receBuf[5]\<close> of 128 and more the product
  leaves the range of the 16-bit \<open>int\<close>; the 16-bit arithmetic of the target wraps, and
  the comparison with the unsigned \<open>crcData\<close> is one of values modulo \<open>2 ^ 16\<close>.
\<close>

definition header_ok :: "uchar list \<Rightarrow> bool" where
  "header_ok buf \<longleftrightarrow> buf ! 0 = 0x01 \<and> buf ! 1 = 0x03 \<and> buf ! 2 = 0x02"

definition trailer_value :: "uchar list \<Rightarrow> uint" where
  "trailer_value buf = ucast (buf ! 6) + ucast (buf ! 5) * 256"

text \<open>
  The validator and decoder (lines 308 to 318). The fixed indices 0 to 6 lie inside the
  nine-entry buffer; the reads of \<open>crc16\<close> go through its pointer and are checked there.
\<close>

definition validate :: "state \<Rightarrow> fault + state" where
  "validate s =
     (if header_ok (receBuf s) then
        (case crc16 (receBuf s) 5 of
           Inl f \<Rightarrow> Inl f
         | Inr c \<Rightarrow>
             (let s1 = s\<lparr>crcData := c\<rparr>
              in if crcData s1 = trailer_value (receBuf s1) then
                   (let s2 = s1\<lparr>Rressure := ucast (receBuf s1 ! 3) * 256 + ucast (receBuf s1 ! 4)\<rparr>;
                        s3 = LcdGotoXY 1 5 s2
                    in Inr (LcdPrintNum (Rressure s3) s3))
                 else Inr s1))
      else Inr s)"

text \<open>
  The receive-processing block of the main loop (lines 300 to 322). Interrupts are served
  during the busy wait; the validator and the reset that follow it run on the state the
  wait has left.
\<close>

definition process_block :: "irq list \<Rightarrow> state \<Rightarrow> (fault + state) option" where
  "process_block es s =
     (if UART1_ucRec_Flag s = TRUE then
        (case wait_loop es s of
           None \<Rightarrow> None
         | Some (Inl f) \<Rightarrow> Some (Inl f)
         | Some (Inr s1) \<Rightarrow>
             (case validate s1 of
                Inl f \<Rightarrow> Some (Inl f)
              | Inr s2 \<Rightarrow> Some (Inr (s2\<lparr>UART1_ucRec_Flag := FALSE, receCount := 0\<rparr>))))
      else Some (Inr s))"

section \<open>Derived notions used in the statements\<close>

text \<open>
  The checksum as the specification words it: start from high byte \<open>0xFF\<close> and low byte
  \<open>0xFF\<close>; for each input byte, \<open>index = highByte XOR inputByte\<close>, the new high byte
  is \<open>lowByte XOR auchCRCHi[index]\<close> and the new low byte is \<open>auchCRCLo[index]\<close>; the
  result is \<open>(highByte << 8) | lowByte\<close>.
\<close>

definition crc_step_spec :: "uchar \<times> uchar \<Rightarrow> uchar \<Rightarrow> uchar \<times> uchar" where
  "crc_step_spec hl inputByte =
     (case hl of (highByte, lowByte) \<Rightarrow>
        (let index = unat (highByte XOR inputByte)
         in (lowByte XOR auchCRCHi ! index, auchCRCLo ! index)))"

definition crc16_spec :: "uchar list \<Rightarrow> uint" where
  "crc16_spec bytes =
     (case foldl crc_step_spec (0xFF, 0xFF) bytes of
        (highByte, lowByte) \<Rightarrow> push_bit 8 (ucast highByte) OR ucast lowByte)"

text \<open>
  The trailer as the specification words it: the two trailing bytes read as low byte,
  then high byte times 256, that is \<open>receBuf[5] + receBuf[6]*256\<close>.
\<close>

definition trailer_value_low_first :: "uchar list \<Rightarrow> uint" where
  "trailer_value_low_first buf = ucast (buf ! 5) + ucast (buf ! 6) * 256"

text \<open>The outcome of the test of line 311, and of both tests of the validator.\<close>

definition crc_ok :: "uchar list \<Rightarrow> bool" where
  "crc_ok buf \<longleftrightarrow> crc16 buf 5 = Inr (trailer_value buf)"

definition frame_ok :: "uchar list \<Rightarrow> bool" where
  "frame_ok buf \<longleftrightarrow> header_ok buf \<and> crc_ok buf"

text \<open>The value line 313 stores in \<open>Rressure\<close>.\<close>

definition pressure_of :: "uchar list \<Rightarrow> uint" where
  "pressure_of buf = ucast (buf ! 3) * 256 + ucast (buf ! 4)"

text \<open>The five bytes \<open>LcdPrintNum\<close> writes, and the bus writes of one display update.\<close>

definition digits5 :: "uint \<Rightarrow> uchar list" where
  "digits5 num =
     [ucast (num div 10000 + 48), ucast (num mod 10000 div 1000 + 48),
      ucast (num mod 1000 div 100 + 48), ucast (num mod 100 div 10 + 48),
      ucast (num mod 10 + 48)]"

definition display_update :: "uint \<Rightarrow> lcd_op list" where
  "display_update num = Cmd 0xC5 # map Dat (digits5 num)"

text \<open>The characters a sequence of data bytes shows on the display.\<close>

definition as_text :: "uchar list \<Rightarrow> string" where
  "as_text bytes = map (\<lambda>b. char_of (unat b)) bytes"

text \<open>Interrupts that deliver a received byte.\<close>

fun is_rx :: "irq \<Rightarrow> bool" where
  "is_rx Timer0_irq = False"
| "is_rx (Uart_irq TI RI SBUF) = RI"

text \<open>The received-byte interrupts that deliver the bytes of a list, in order.\<close>

definition rx_bytes :: "uchar list \<Rightarrow> irq list" where
  "rx_bytes bytes = map (Uart_irq False True) bytes"

text \<open>
  A response frame for the reading 300: \<open>crc16\<close> of the first five bytes is \<open>0xB809\<close>,
  and the frame carries \<open>0xB8\<close> before \<open>0x09\<close>.
\<close>

definition response_300 :: "uchar list" where
  "response_300 = [0x01, 0x03, 0x02, 0x01, 0x2C, 0xB8, 0x09]"

text \<open>The same frame with its two trailing bytes exchanged.\<close>

definition response_300_swapped :: "uchar list" where
  "response_300_swapped = [0x01, 0x03, 0x02, 0x01, 0x2C, 0x09, 0xB8]"

text \<open>
  A state in which every global is zero and both output traces are empty, as when the
  main loop is entered (the traces then record the output from that point on).
\<close>

definition idle_state :: state where
  "idle_state =
     \<lparr>UART1_ucRec_Flag = 0, receBuf = replicate 9 0, receTimeOut = 0, receCount = 0,
      fasongbiaozhi = 0, Rressure = 0, gCount = 0, crcData = 0, RE_485 = False,
      uart_tx = [], lcd = []\<rparr>"

text \<open>
  The states reached from \<open>idle_state\<close> when seven received-byte interrupts have stored a
  frame: the frame for the reading 300, the same with its trailing bytes exchanged, and
  the same with slave address 2.
\<close>

definition received_300 :: state where
  "received_300 =
     idle_state\<lparr>UART1_ucRec_Flag := 1, receBuf := response_300 @ [0, 0], receCount := 7\<rparr>"

definition received_300_swapped :: state where
  "received_300_swapped =
     idle_state\<lparr>UART1_ucRec_Flag := 1, receBuf := response_300_swapped @ [0, 0],
                receCount := 7\<rparr>"

definition received_wrong_address :: state where
  "received_wrong_address =
     idle_state\<lparr>UART1_ucRec_Flag := 1,
                receBuf := [0x02, 0x03, 0x02, 0x01, 0x2C, 0xB8, 0x09, 0, 0],
                receCount := 7\<rparr>"

text \<open>Ten timer interrupts: ten milliseconds in which no byte arrives.\<close>

definition silence :: "irq list" where
  "silence = replicate 10 Timer0_irq"

text \<open>
  The busy wait of lines 302 to 306 is not left while the interrupts of a list are
  served: before each of them the loop condition \<open>receCount <= 7\<close> holds, the time-out
  test \<open>receTimeOut >= 10\<close> fails, and the handler does not fault.
\<close>

fun waits_through :: "irq list \<Rightarrow> state \<Rightarrow> bool" where
  "waits_through [] s = True"
| "waits_through (e # es) s =
     (receCount s \<le> 7 \<and> \<not> receTimeOut s \<ge> 10 \<and>
      (case irq_step e s of Inl f \<Rightarrow> False | Inr s' \<Rightarrow> waits_through es s'))"

text \<open>
  The state the first byte of the frame for 300 leaves when it arrives in \<open>idle_state\<close>,
  and the state after the processing block has accepted and displayed that frame.
\<close>

definition first_byte_300 :: state where
  "first_byte_300 =
     idle_state\<lparr>UART1_ucRec_Flag := 1, receBuf := [0x01, 0, 0, 0, 0, 0, 0, 0, 0],
                receCount := 1\<rparr>"

definition shown_300 :: state where
  "shown_300 =
     received_300\<lparr>receTimeOut := 10, gCount := 10, crcData := 0xB809, Rressure := 300,
                  lcd := [Cmd 0xC5, Dat 0x30, Dat 0x30, Dat 0x33, Dat 0x30, Dat 0x30],
                  UART1_ucRec_Flag := FALSE, receCount := 0\<rparr>"

section \<open>Auxiliary facts\<close>

subsection \<open>Checksum, display and validator\<close>

lemma as_text_digits5_300: "as_text (digits5 300) = ''00300''"
  by code_simp

lemma length_auchCRCHi: "length auchCRCHi = 256"
  by (simp add: auchCRCHi_def)

lemma length_auchCRCLo: "length auchCRCLo = 256"
  by (simp add: auchCRCLo_def)

lemma uIndex_in_tables:
  "unat (h XOR b :: uchar) < length auchCRCHi \<and> unat (h XOR b) < length auchCRCLo"
proof -
  have "unat (h XOR b) < 2 ^ LENGTH(8)" by (rule unsigned_less)
  then show ?thesis by (simp add: length_auchCRCHi length_auchCRCLo)
qed

lemma crc_step_spec_pair:
  "crc_step_spec (h, l) b =
     (l XOR auchCRCHi ! unat (h XOR b), auchCRCLo ! unat (h XOR b))"
  by (simp add: crc_step_spec_def Let_def)

lemma crc16_loop_spec:
  "p + unat n \<le> length buf \<Longrightarrow>
   crc16_loop buf p n h l =
     Inr (case foldl crc_step_spec (h, l) (take (unat n) (drop p buf)) of
            (highByte, lowByte) \<Rightarrow> push_bit 8 (ucast highByte) OR ucast lowByte)"
proof (induction buf p n h l rule: crc16_loop.induct)
  case (1 puchMsg p usDataLen uchCRCHi uchCRCLo)
  show ?case
  proof (cases "usDataLen = 0")
    case True
    then show ?thesis by (simp add: crc16_loop.simps [of _ _ 0])
  next
    case False
    then have pos: "0 < unat usDataLen" by (simp add: unat_gt_0)
    with "1.prems" have inb: "p < length puchMsg" by simp
    have dec: "unat (usDataLen - 1) = unat usDataLen - 1"
      using False by (simp add: unat_minus_one)
    have tk: "take (unat usDataLen) (drop p puchMsg) =
              puchMsg ! p # take (unat (usDataLen - 1)) (drop (p + 1) puchMsg)"
      using pos inb dec
      by (metis Cons_nth_drop_Suc Suc_eq_plus1 Suc_pred' take_Suc_Cons)
    have bound: "p + 1 + unat (usDataLen - 1) \<le> length puchMsg"
      using "1.prems" pos dec by simp
    note IH = "1.IH" [OF False inb refl bound]
    show ?thesis
      using False inb IH
      by (subst crc16_loop.simps) (simp add: tk crc_step_spec_pair Let_def)
  qed
qed

lemma crc16_eq_spec:
  "unat usDataLen \<le> length puchMsg \<Longrightarrow>
   crc16 puchMsg usDataLen = Inr (crc16_spec (take (unat usDataLen) puchMsg))"
  using crc16_loop_spec [of 0 usDataLen puchMsg "0xFF" "0xFF"]
  by (simp add: crc16_def crc16_spec_def)

lemma crc16_receBuf:
  "wf_state s \<Longrightarrow> crc16 (receBuf s) 5 = Inr (crc16_spec (take 5 (receBuf s)))"
  using crc16_eq_spec [of 5 "receBuf s"] by (simp add: wf_state_def)

lemma LcdPrintNum_eq: "LcdPrintNum num s = s\<lparr>lcd := lcd s @ map Dat (digits5 num)\<rparr>"
  by (simp add: LcdPrintNum_def LcdWriteData_def digits5_def)

lemma LcdGotoXY_1_5: "LcdGotoXY 1 5 s = s\<lparr>lcd := lcd s @ [Cmd 0xC5]\<rparr>"
  by (simp add: LcdGotoXY_def LcdWriteCmd_def)

lemma validate_eq:
  assumes "wf_state s"
  shows "validate s =
     Inr (if header_ok (receBuf s) then
            (if crc_ok (receBuf s)
             then s\<lparr>crcData := trailer_value (receBuf s),
                    Rressure := pressure_of (receBuf s),
                    lcd := lcd s @ display_update (pressure_of (receBuf s))\<rparr>
             else s\<lparr>crcData := crc16_spec (take 5 (receBuf s))\<rparr>)
          else s)"
  using crc16_receBuf [OF assms]
  by (auto simp: validate_def crc_ok_def Let_def LcdPrintNum_eq LcdGotoXY_1_5
        display_update_def pressure_of_def)


subsection \<open>Interrupts\<close>

lemma UartInt_rx:
  "UartInt TI True SBUF s =
     (if unat (receCount s) < length (receBuf s)
      then Inr (s\<lparr>UART1_ucRec_Flag := 1, receTimeOut := 0,
                    receBuf := (receBuf s)[unat (receCount s) := SBUF],
                    receCount := receCount s + 1\<rparr>)
      else Inl Write_out_of_bounds)"
  by (simp add: UartInt_def Let_def)

lemma UartInt_no_rx:
  "UartInt TI False SBUF s = Inr (if TI then s\<lparr>UART1_ucRec_Flag := 0\<rparr> else s)"
  by (simp add: UartInt_def Let_def)

lemma Timer0_frame:
  "receBuf (Timer0 s) = receBuf s" "receCount (Timer0 s) = receCount s"
  "lcd (Timer0 s) = lcd s" "Rressure (Timer0 s) = Rressure s"
  "UART1_ucRec_Flag (Timer0 s) = UART1_ucRec_Flag s" "uart_tx (Timer0 s) = uart_tx s"
  "crcData (Timer0 s) = crcData s"
  by (simp_all add: Timer0_def Let_def)

lemma irq_step_frame:
  assumes "irq_step e s = Inr s'"
  shows "lcd s' = lcd s \<and> Rressure s' = Rressure s \<and> crcData s' = crcData s \<and>
         length (receBuf s') = length (receBuf s)"
proof (cases e)
  case Timer0_irq
  with assms show ?thesis by (auto simp: Timer0_frame)
next
  case (Uart_irq TI RI SBUF)
  with assms show ?thesis
    by (cases RI) (auto simp: UartInt_rx UartInt_no_rx split: if_splits)
qed

lemma unat_receCount_Suc:
  "unat (c :: uchar) \<le> 8 \<Longrightarrow> unat (c + 1) = unat c + 1"
  by (simp add: unat_word_ariths)

lemma irq_step_in_bounds:
  assumes "wf_state s" and "is_rx e \<longrightarrow> unat (receCount s) \<le> 8"
  shows "\<exists>s'. irq_step e s = Inr s' \<and> wf_state s' \<and>
           unat (receCount s') = unat (receCount s) + (if is_rx e then 1 else 0)"
proof (cases e)
  case Timer0_irq
  with assms show ?thesis by (simp add: wf_state_def Timer0_frame)
next
  case (Uart_irq TI RI SBUF)
  with assms show ?thesis
    by (cases RI) (auto simp: wf_state_def UartInt_rx UartInt_no_rx unat_receCount_Suc)
qed

lemma irq_step_overrun:
  assumes "wf_state s" and "is_rx e" and "9 \<le> unat (receCount s)"
  shows "irq_step e s = Inl Write_out_of_bounds"
  using assms by (cases e) (auto simp: wf_state_def UartInt_rx)

lemma run_irqs_in_bounds:
  "wf_state s \<Longrightarrow> unat (receCount s) + length (filter is_rx es) \<le> 9 \<Longrightarrow>
   \<exists>s'. run_irqs es s = Inr s' \<and> wf_state s' \<and>
        unat (receCount s') = unat (receCount s) + length (filter is_rx es)"
proof (induction es arbitrary: s)
  case Nil
  then show ?case by simp
next
  case (Cons e es)
  from Cons.prems have "is_rx e \<longrightarrow> unat (receCount s) \<le> 8" by auto
  from irq_step_in_bounds [OF Cons.prems(1) this]
  obtain s1 where s1: "irq_step e s = Inr s1" "wf_state s1"
    "unat (receCount s1) = unat (receCount s) + (if is_rx e then 1 else 0)"
    by blast
  with Cons.prems have "unat (receCount s1) + length (filter is_rx es) \<le> 9"
    by (auto split: if_splits)
  from Cons.IH [OF s1(2) this] s1 show ?case
    by (auto split: if_splits)
qed

subsection \<open>Timer\<close>

lemma Timer0_gCount_below:
  assumes "unat (gCount s) < 100"
  shows "unat (gCount (Timer0 s)) = unat (gCount s) + 1 \<and>
         fasongbiaozhi (Timer0 s) = fasongbiaozhi s"
proof -
  have a: "unat (gCount s + 1) = unat (gCount s) + 1"
    using assms by (simp add: unat_word_ariths)
  then have "\<not> gCount s + 1 > 100"
    using assms by (simp add: word_less_nat_alt)
  with a show ?thesis by (simp add: Timer0_def Let_def)
qed

lemma Timer0_gCount_fire:
  assumes "unat (gCount s) = 100"
  shows "gCount (Timer0 s) = 0 \<and> fasongbiaozhi (Timer0 s) = 1"
proof -
  have "unat (gCount s + 1) = 101"
    using assms by (simp add: unat_word_ariths)
  then have "gCount s + 1 > 100"
    by (simp add: word_less_nat_alt)
  then show ?thesis by (simp add: Timer0_def Let_def)
qed

lemma Timer0_iterate:
  "gCount s = 0 \<Longrightarrow> k \<le> 100 \<Longrightarrow>
   unat (gCount ((Timer0 ^^ k) s)) = k \<and>
   fasongbiaozhi ((Timer0 ^^ k) s) = fasongbiaozhi s"
proof (induction k)
  case 0
  then show ?case by simp
next
  case (Suc k)
  then have IH: "unat (gCount ((Timer0 ^^ k) s)) = k"
    "fasongbiaozhi ((Timer0 ^^ k) s) = fasongbiaozhi s" by simp_all
  from Suc.prems have "unat (gCount ((Timer0 ^^ k) s)) < 100" using IH by simp
  from Timer0_gCount_below [OF this] IH show ?case by simp
qed

lemma Timer0_timeout_below:
  assumes "receTimeOut s < 10"
  shows "unat (receTimeOut (Timer0 s)) = unat (receTimeOut s) + 1"
proof -
  from assms have lt: "unat (receTimeOut s) < 10" by (simp add: word_less_nat_alt)
  then have a: "unat (receTimeOut s + 1) = unat (receTimeOut s) + 1"
    by (simp add: unat_word_ariths)
  with lt have "\<not> receTimeOut s + 1 > 100" by (simp add: word_less_nat_alt)
  with a show ?thesis by (simp add: Timer0_def Let_def)
qed

subsection \<open>The busy wait\<close>

lemma wait_loop_frame:
  "wait_loop es s = Some (Inr s') \<Longrightarrow>
   lcd s' = lcd s \<and> Rressure s' = Rressure s \<and> crcData s' = crcData s \<and>
   length (receBuf s') = length (receBuf s)"
proof (induction es arbitrary: s)
  case Nil
  then show ?case by (auto split: if_splits)
next
  case (Cons e es)
  show ?case
  proof (cases "receCount s \<le> 7 \<and> \<not> receTimeOut s \<ge> 10")
    case False
    with Cons.prems show ?thesis by (auto split: if_splits)
  next
    case True
    with Cons.prems obtain s1 where s1: "irq_step e s = Inr s1" "wait_loop es s1 = Some (Inr s')"
      by (auto split: sum.splits)
    from Cons.IH [OF s1(2)] irq_step_frame [OF s1(1)] show ?thesis by simp
  qed
qed

lemma wait_loop_exit:
  "wait_loop es s = Some (Inr s') \<Longrightarrow> \<not> receCount s' \<le> 7 \<or> receTimeOut s' \<ge> 10"
proof (induction es arbitrary: s)
  case Nil
  then show ?case by (auto split: if_splits)
next
  case (Cons e es)
  show ?case
  proof (cases "receCount s \<le> 7 \<and> \<not> receTimeOut s \<ge> 10")
    case False
    with Cons.prems show ?thesis by (auto split: if_splits)
  next
    case True
    with Cons.prems obtain s1 where s1: "irq_step e s = Inr s1" "wait_loop es s1 = Some (Inr s')"
      by (auto split: sum.splits)
    from Cons.IH [OF s1(2)] show ?thesis .
  qed
qed

lemma wait_loop_no_fault:
  "wf_state s \<Longrightarrow> wait_loop es s \<noteq> Some (Inl f)"
proof (induction es arbitrary: s)
  case Nil
  then show ?case by simp
next
  case (Cons e es)
  show ?case
  proof (cases "receCount s \<le> 7 \<and> \<not> receTimeOut s \<ge> 10")
    case False
    then show ?thesis by auto
  next
    case True
    then have "unat (receCount s) \<le> 7" by (simp add: word_le_nat_alt)
    then have "is_rx e \<longrightarrow> unat (receCount s) \<le> 8" by simp
    from irq_step_in_bounds [OF Cons.prems this]
    obtain s1 where s1: "irq_step e s = Inr s1" "wf_state s1" by blast
    with True Cons.IH [OF s1(2)] show ?thesis by simp
  qed
qed

lemma wait_loop_ticks:
  "10 \<le> unat (receTimeOut s) + k \<Longrightarrow> wait_loop (replicate k Timer0_irq) s \<noteq> None"
proof (induction k arbitrary: s)
  case 0
  then have "receTimeOut s \<ge> 10" by (simp add: word_le_nat_alt)
  then show ?case by simp
next
  case (Suc k)
  show ?case
  proof (cases "receCount s \<le> 7 \<and> \<not> receTimeOut s \<ge> 10")
    case False
    then show ?thesis by auto
  next
    case True
    then have "receTimeOut s < 10" by (simp add: not_le)
    from Timer0_timeout_below [OF this] Suc.prems
    have "10 \<le> unat (receTimeOut (Timer0 s)) + k" by simp
    from Suc.IH [OF this] True show ?thesis by simp
  qed
qed

lemma wait_loop_returns:
  "wait_loop (es @ replicate 10 Timer0_irq) s \<noteq> None"
proof (induction es arbitrary: s)
  case Nil
  show ?case using wait_loop_ticks [of s 10] by simp
next
  case (Cons e es)
  show ?case
  proof (cases "receCount s \<le> 7 \<and> \<not> receTimeOut s \<ge> 10")
    case False
    then show ?thesis by auto
  next
    case True
    then show ?thesis using Cons.IH by (auto split: sum.splits)
  qed
qed

subsection \<open>Concrete frames and the processing block\<close>

lemma crc16_spec_response_300: "crc16_spec [0x01, 0x03, 0x02, 0x01, 0x2C] = 0xB809"
  by code_simp

lemma crc16_response_300: "crc16 (response_300 @ [x, y]) 5 = Inr 0xB809"
  using crc16_eq_spec [of 5 "response_300 @ [x, y]"]
  by (simp add: response_300_def crc16_spec_response_300)

lemma crc16_response_300_swapped: "crc16 (response_300_swapped @ [x, y]) 5 = Inr 0xB809"
  using crc16_eq_spec [of 5 "response_300_swapped @ [x, y]"]
  by (simp add: response_300_swapped_def crc16_spec_response_300)

lemma frame_ok_response_300: "frame_ok (response_300 @ [x, y])"
  by (simp add: frame_ok_def crc_ok_def crc16_response_300)
     (simp add: header_ok_def trailer_value_def response_300_def)

lemma not_crc_ok_swapped: "\<not> crc_ok (response_300_swapped @ [x, y])"
  by (simp add: crc_ok_def crc16_response_300_swapped)
     (simp add: trailer_value_def response_300_swapped_def)

lemma pressure_of_response_300: "pressure_of (response_300 @ [x, y]) = 300"
  by (simp add: pressure_of_def response_300_def)

lemma wf_received: "wf_state received_300" "wf_state received_300_swapped"
  "wf_state received_wrong_address" "wf_state idle_state"
  by (simp_all add: wf_state_def received_300_def received_300_swapped_def
        received_wrong_address_def idle_state_def response_300_def response_300_swapped_def)


lemma process_block_eq:
  assumes "wf_state s" and "UART1_ucRec_Flag s = TRUE" and "wait_loop es s = Some (Inr s1)"
  shows "wf_state s1 \<and> lcd s1 = lcd s \<and> Rressure s1 = Rressure s \<and>
         process_block es s =
           Some (Inr ((if frame_ok (receBuf s1)
                       then s1\<lparr>crcData := trailer_value (receBuf s1),
                               Rressure := pressure_of (receBuf s1),
                               lcd := lcd s @ display_update (pressure_of (receBuf s1))\<rparr>
                       else if header_ok (receBuf s1)
                       then s1\<lparr>crcData := crc16_spec (take 5 (receBuf s1))\<rparr>
                       else s1)
                      \<lparr>UART1_ucRec_Flag := FALSE, receCount := 0\<rparr>))"
proof -
  from wait_loop_frame [OF assms(3)] assms(1)
  have fr: "wf_state s1" "lcd s1 = lcd s" "Rressure s1 = Rressure s"
    by (simp_all add: wf_state_def)
  from validate_eq [OF fr(1)] fr assms show ?thesis
    by (simp add: process_block_def frame_ok_def)
qed

subsection \<open>Leaving the busy wait through the time-out\<close>

lemma wait_loop_after:
  "waits_through pre s \<Longrightarrow> run_irqs pre s = Inr s0 \<Longrightarrow>
   wait_loop (pre @ es) s = wait_loop es s0"
proof (induction pre arbitrary: s)
  case Nil
  then show ?case by simp
next
  case (Cons e pre)
  from Cons.prems(1) obtain s1 where s1: "irq_step e s = Inr s1" "waits_through pre s1"
    and c: "receCount s \<le> 7" "\<not> receTimeOut s \<ge> 10"
    by (auto split: sum.splits)
  from Cons.prems(2) s1 have "run_irqs pre s1 = Inr s0" by simp
  from Cons.IH [OF s1(2) this] s1 c show ?case by simp
qed

lemma Timer0_funpow_frame:
  "receBuf ((Timer0 ^^ n) s) = receBuf s \<and> receCount ((Timer0 ^^ n) s) = receCount s"
  by (induction n) (simp_all add: Timer0_frame)

lemma wait_loop_timeout_exit:
  "receCount s \<le> 7 \<Longrightarrow> 10 \<le> unat (receTimeOut s) + k \<Longrightarrow>
   wait_loop (replicate k Timer0_irq @ rest) s =
     Some (Inr ((Timer0 ^^ (10 - unat (receTimeOut s))) s))"
proof (induction k arbitrary: s)
  case 0
  then have t: "receTimeOut s \<ge> 10" by (simp add: word_le_nat_alt)
  then have "10 - unat (receTimeOut s) = 0" by (simp add: word_le_nat_alt)
  with t show ?case by (cases rest) simp_all
next
  case (Suc k)
  show ?case
  proof (cases "receTimeOut s \<ge> 10")
    case True
    then have "10 - unat (receTimeOut s) = 0" by (simp add: word_le_nat_alt)
    with True show ?thesis by simp
  next
    case False
    then have lt: "receTimeOut s < 10" by (simp add: not_le)
    then have ult: "unat (receTimeOut s) < 10" by (simp add: word_less_nat_alt)
    from Timer0_timeout_below [OF lt]
    have t1: "unat (receTimeOut (Timer0 s)) = unat (receTimeOut s) + 1" .
    with Suc.prems have b: "10 \<le> unat (receTimeOut (Timer0 s)) + k" by simp
    have c: "receCount (Timer0 s) \<le> 7" using Suc.prems(1) by (simp add: Timer0_frame)
    have n: "10 - unat (receTimeOut s) = Suc (10 - unat (receTimeOut (Timer0 s)))"
      using ult t1 by simp
    from Suc.IH [OF c b] False Suc.prems(1) show ?thesis
      by (simp add: n funpow_swap1)
  qed
qed

section \<open>The claims\<close>

subsection \<open>C1: checksum comparison of the validator\<close>

text \<open>
  C1 as stated reads the trailer as \<open>receBuf[5] + receBuf[6]*256\<close>. Line 311 compares
  with \<open>receBuf[6] + receBuf[5]*256\<close>. For the frame \<open>01 03 02 01 2C B8 09\<close> the
  checksum of the first five bytes is \<open>0xB809\<close> and the low-byte-first reading of the
  trailer is \<open>0x09B8\<close>, yet the validator decodes 300 and writes the display; with the
  trailing bytes exchanged the low-byte-first reading equals the checksum, yet the
  validator only stores the checksum and leaves reading and display alone.
\<close>

theorem trailer_low_first_counterexample:
  "header_ok (receBuf received_300) \<and>
   crc16 (receBuf received_300) 5 = Inr 0xB809 \<and>
   trailer_value_low_first (receBuf received_300) = 0x09B8 \<and>
   validate received_300 =
     Inr (received_300\<lparr>crcData := 0xB809, Rressure := 300,
            lcd := [Cmd 0xC5, Dat 0x30, Dat 0x30, Dat 0x33, Dat 0x30, Dat 0x30]\<rparr>) \<and>
   header_ok (receBuf received_300_swapped) \<and>
   crc16 (receBuf received_300_swapped) 5 = Inr 0xB809 \<and>
   trailer_value_low_first (receBuf received_300_swapped) = 0xB809 \<and>
   validate received_300_swapped = Inr (received_300_swapped\<lparr>crcData := 0xB809\<rparr>)"
  by code_simp

text \<open>
  C1, amended: for every nine-entry receive buffer whose header bytes pass the check, the
  validator computes \<open>crc16\<close> over the first five bytes and accepts (stores the decoded
  reading and writes the display) if and only if that checksum equals
  \<open>receBuf[5]*256 + receBuf[6]\<close>; on a mismatch only the scratch variable \<open>crcData\<close>
  changes: nothing is decoded and nothing is displayed.
\<close>

theorem validator_accepts_iff_crc_high_first:
  assumes "wf_state s" and "header_ok (receBuf s)"
  shows "\<exists>c. crc16 (receBuf s) 5 = Inr c \<and>
           validate s =
             Inr (if c = ucast (receBuf s ! 5) * 256 + ucast (receBuf s ! 6)
                  then s\<lparr>crcData := c, Rressure := pressure_of (receBuf s),
                         lcd := lcd s @ display_update (pressure_of (receBuf s))\<rparr>
                  else s\<lparr>crcData := c\<rparr>)"
  using validate_eq [OF assms(1)] crc16_receBuf [OF assms(1)] assms(2)
  by (auto simp: crc_ok_def trailer_value_def)

text \<open>The amended C1 at the frame \<open>01 03 02 01 2C B8 09\<close>.\<close>

theorem validator_accepts_iff_crc_high_first_witness:
  "wf_state received_300 \<and> header_ok (receBuf received_300) \<and>
   (\<exists>c. crc16 (receBuf received_300) 5 = Inr c \<and>
      c = ucast (receBuf received_300 ! 5) * 256 + ucast (receBuf received_300 ! 6) \<and>
      validate received_300 =
        Inr (received_300\<lparr>crcData := c, Rressure := 300,
               lcd := display_update 300\<rparr>))"
proof -
  have wf: "wf_state received_300" by (rule wf_received)
  have hd: "header_ok (receBuf received_300)" by code_simp
  have c: "crc16 (receBuf received_300) 5 = Inr 0xB809" by code_simp
  have eq: "(0xB809 :: uint) = ucast (receBuf received_300 ! 5) * 256 + ucast (receBuf received_300 ! 6)"
    by code_simp
  have p: "pressure_of (receBuf received_300) = 300" by code_simp
  have l: "lcd received_300 = []" by code_simp
  from validator_accepts_iff_crc_high_first [OF wf hd] c eq p l wf hd
  show ?thesis by auto
qed

subsection \<open>C2: the response for the reading 300\<close>

text \<open>
  C2: the buffer \<open>01 03 02 01 2C B8 09\<close>, whose two trailing bytes are the two bytes of
  \<open>crc16\<close> over the first five in the order the program puts them on the wire (the byte
  \<open>crc16\<close> returns in its upper half first, as in the request frame), passes
  validation whatever the two unused buffer entries hold; the decoded reading is 300 and
  the display receives the cursor command followed by the five characters \<open>00300\<close>.
  The same holds end to end: seven received-byte interrupts from the idle state followed
  by ten silent milliseconds make the processing block show \<open>00300\<close>.
\<close>

theorem response_300_shows_00300:
  "crc16 (take 5 response_300) 5 =
     Inr (push_bit 8 (ucast (response_300 ! 5)) OR ucast (response_300 ! 6)) \<and>
   crc16 (take 6 request_frame) 6 =
     Inr (push_bit 8 (ucast (request_frame ! 6)) OR ucast (request_frame ! 7)) \<and>
   frame_ok (response_300 @ [x, y]) \<and>
   validate (s\<lparr>receBuf := response_300 @ [x, y]\<rparr>) =
     Inr (s\<lparr>receBuf := response_300 @ [x, y], crcData := 0xB809, Rressure := 300,
            lcd := lcd s @ Cmd 0xC5 # map Dat (digits5 300)\<rparr>) \<and>
   unat (300 :: uint) = 300 \<and>
   as_text (digits5 300) = ''00300'' \<and>
   run_irqs (rx_bytes response_300) idle_state = Inr received_300 \<and>
   process_block silence received_300 =
     Some (Inr (received_300\<lparr>receTimeOut := 10, gCount := 10, crcData := 0xB809,
                  Rressure := 300, lcd := Cmd 0xC5 # map Dat (digits5 300),
                  UART1_ucRec_Flag := FALSE, receCount := 0\<rparr>))"
proof -
  have a: "crc16 (take 5 response_300) 5 =
     Inr (push_bit 8 (ucast (response_300 ! 5)) OR ucast (response_300 ! 6))"
    by code_simp
  have wf: "wf_state (s\<lparr>receBuf := response_300 @ [x, y]\<rparr>)"
    by (simp add: wf_state_def response_300_def)
  have tr: "trailer_value (response_300 @ [x, y]) = 0xB809"
    by (simp add: trailer_value_def response_300_def)
  have v: "validate (s\<lparr>receBuf := response_300 @ [x, y]\<rparr>) =
     Inr (s\<lparr>receBuf := response_300 @ [x, y], crcData := 0xB809, Rressure := 300,
            lcd := lcd s @ Cmd 0xC5 # map Dat (digits5 300)\<rparr>)"
    using validate_eq [OF wf] frame_ok_response_300 [of x y]
    by (simp add: frame_ok_def tr pressure_of_response_300 display_update_def)
  have r: "run_irqs (rx_bytes response_300) idle_state = Inr received_300"
    by code_simp
  have p: "process_block silence received_300 =
     Some (Inr (received_300\<lparr>receTimeOut := 10, gCount := 10, crcData := 0xB809,
                  Rressure := 300, lcd := Cmd 0xC5 # map Dat (digits5 300),
                  UART1_ucRec_Flag := FALSE, receCount := 0\<rparr>))"
    by code_simp
  have q: "crc16 (take 6 request_frame) 6 =
     Inr (push_bit 8 (ucast (request_frame ! 6)) OR ucast (request_frame ! 7))"
    by code_simp
  show ?thesis
    using a q frame_ok_response_300 [of x y] v as_text_digits5_300 r p by simp
qed

subsection \<open>C3: time-out before the eighth byte\<close>

text \<open>
  C3 as stated says that a time-out with at most seven bytes counted discards the buffer
  without validating it. After the seven bytes of the frame for 300 and ten silent
  milliseconds the wait ends with \<open>receCount = 7\<close> and \<open>receTimeOut = 10\<close>, and the block
  validates the buffer, decodes 300 and writes the display.
\<close>

theorem timeout_discards_counterexample:
  "wait_loop silence received_300 =
     Some (Inr (received_300\<lparr>receTimeOut := 10, gCount := 10\<rparr>)) \<and>
   receCount received_300 = 7 \<and>
   process_block silence received_300 =
     Some (Inr (received_300\<lparr>receTimeOut := 10, gCount := 10, crcData := 0xB809,
                  Rressure := 300,
                  lcd := [Cmd 0xC5, Dat 0x30, Dat 0x30, Dat 0x33, Dat 0x30, Dat 0x30],
                  UART1_ucRec_Flag := FALSE, receCount := 0\<rparr>)) \<and>
   lcd received_300 = [] \<and> Rressure received_300 = 0"
  by code_simp

text \<open>
  C3, amended: whenever the time-out counter reaches 10 before the byte count exceeds 7
  (the loop has not been left while earlier interrupts were served, at most seven bytes
  are counted, and enough silent timer ticks follow to bring the counter to 10), the
  busy wait is left on the tick that brings the counter to 10, with buffer and count as
  the last byte left them, and the block validates the buffer as it stands: the reading
  is decoded and displayed exactly when the header and checksum tests pass, and otherwise
  reading and display stay as they were; in either case the data-available flag is
  cleared and the count is reset to 0.
\<close>

theorem timeout_exit_validates_buffer:
  assumes "wf_state s" and "UART1_ucRec_Flag s = TRUE"
    and "waits_through pre s" and "run_irqs pre s = Inr s0"
    and "receCount s0 \<le> 7" and "10 \<le> unat (receTimeOut s0) + k"
  shows "\<exists>s1 s'. s1 = (Timer0 ^^ (10 - unat (receTimeOut s0))) s0 \<and>
           wait_loop (pre @ replicate k Timer0_irq @ rest) s = Some (Inr s1) \<and>
           receBuf s1 = receBuf s0 \<and> receCount s1 = receCount s0 \<and>
           receTimeOut s1 \<ge> 10 \<and>
           process_block (pre @ replicate k Timer0_irq @ rest) s = Some (Inr s') \<and>
           UART1_ucRec_Flag s' = FALSE \<and> receCount s' = 0 \<and>
           (if frame_ok (receBuf s0)
            then Rressure s' = pressure_of (receBuf s0) \<and>
                 lcd s' = lcd s @ display_update (pressure_of (receBuf s0))
            else Rressure s' = Rressure s \<and> lcd s' = lcd s)"
proof -
  let ?s1 = "(Timer0 ^^ (10 - unat (receTimeOut s0))) s0"
  let ?es = "pre @ replicate k Timer0_irq @ rest"
  have w: "wait_loop ?es s = Some (Inr ?s1)"
    using wait_loop_after [OF assms(3,4)] wait_loop_timeout_exit [OF assms(5,6)] by simp
  have fr: "receBuf ?s1 = receBuf s0" "receCount ?s1 = receCount s0"
    by (simp_all add: Timer0_funpow_frame)
  from wait_loop_exit [OF w] fr assms(5) have t: "receTimeOut ?s1 \<ge> 10" by simp
  from process_block_eq [OF assms(1,2) w] w fr t show ?thesis by simp
qed

text \<open>
  The amended C3 at the frame for 300: the block is entered after the first byte, the
  other six bytes arrive during the wait, and ten silent milliseconds follow.
\<close>

theorem timeout_exit_validates_buffer_witness:
  "wf_state first_byte_300 \<and> UART1_ucRec_Flag first_byte_300 = TRUE \<and>
   waits_through (rx_bytes (tl response_300)) first_byte_300 \<and>
   run_irqs (rx_bytes (tl response_300)) first_byte_300 = Inr received_300 \<and>
   receCount received_300 \<le> 7 \<and> 10 \<le> unat (receTimeOut received_300) + 10 \<and>
   frame_ok (receBuf received_300) \<and>
   wait_loop (rx_bytes (tl response_300) @ replicate 10 Timer0_irq @ []) first_byte_300 =
     Some (Inr ((Timer0 ^^ (10 - unat (receTimeOut received_300))) received_300)) \<and>
   (\<exists>s'. process_block (rx_bytes (tl response_300) @ replicate 10 Timer0_irq @ [])
           first_byte_300 = Some (Inr s') \<and>
      UART1_ucRec_Flag s' = FALSE \<and> receCount s' = 0 \<and>
      Rressure s' = 300 \<and> lcd s' = display_update 300)"
proof -
  have wf: "wf_state first_byte_300" by (simp add: wf_state_def first_byte_300_def)
  have fl: "UART1_ucRec_Flag first_byte_300 = TRUE" by code_simp
  have wt: "waits_through (rx_bytes (tl response_300)) first_byte_300" by code_simp
  have r: "run_irqs (rx_bytes (tl response_300)) first_byte_300 = Inr received_300"
    by code_simp
  have c: "receCount received_300 \<le> 7" by code_simp
  have k: "10 \<le> unat (receTimeOut received_300) + 10" by simp
  have b: "receBuf received_300 = response_300 @ [0, 0]" by code_simp
  have l: "lcd first_byte_300 = []" by code_simp
  from timeout_exit_validates_buffer [OF wf fl wt r c k, of "[]"] wf fl wt r c k b l
    frame_ok_response_300 [of 0 0] pressure_of_response_300 [of 0 0]
  show ?thesis by auto
qed

subsection \<open>C4: the poll trigger\<close>

text \<open>
  C4: starting from a tick counter of zero, none of the ticks 1 to 100 changes the
  ready-to-send flag (after \<open>k\<close> of them the counter reads \<open>k\<close>), and the 101st tick sets
  the flag to 1 and resets the counter to zero.
\<close>

theorem poll_trigger_fires_on_tick_101:
  assumes "gCount s = 0"
  shows "(\<forall>k \<in> {1..100}. fasongbiaozhi ((Timer0 ^^ k) s) = fasongbiaozhi s \<and>
                         unat (gCount ((Timer0 ^^ k) s)) = k) \<and>
         fasongbiaozhi ((Timer0 ^^ 101) s) = 1 \<and> gCount ((Timer0 ^^ 101) s) = 0"
proof -
  have low: "\<forall>k \<in> {1..100}. fasongbiaozhi ((Timer0 ^^ k) s) = fasongbiaozhi s \<and>
                         unat (gCount ((Timer0 ^^ k) s)) = k"
    using Timer0_iterate [OF assms] by simp
  have "unat (gCount ((Timer0 ^^ 100) s)) = 100"
    using Timer0_iterate [OF assms, of 100] by simp
  from Timer0_gCount_fire [OF this]
  have "fasongbiaozhi (Timer0 ((Timer0 ^^ 100) s)) = 1 \<and> gCount (Timer0 ((Timer0 ^^ 100) s)) = 0"
    by simp
  moreover have "(Timer0 ^^ 101) s = Timer0 ((Timer0 ^^ 100) s)"
    using funpow.simps(2) [of 100 Timer0] by simp
  ultimately show ?thesis using low by simp
qed

text \<open>C4 at the idle state: the flag is still 0 after 100 ticks and 1 after 101.\<close>

theorem poll_trigger_fires_on_tick_101_witness:
  "gCount idle_state = 0 \<and> (100 :: nat) \<in> {1..100} \<and>
   fasongbiaozhi ((Timer0 ^^ 100) idle_state) = 0 \<and>
   unat (gCount ((Timer0 ^^ 100) idle_state)) = 100 \<and>
   fasongbiaozhi ((Timer0 ^^ 101) idle_state) = 1 \<and>
   gCount ((Timer0 ^^ 101) idle_state) = 0"
proof -
  have g: "gCount idle_state = 0" by (simp add: idle_state_def)
  have f: "fasongbiaozhi idle_state = 0" by (simp add: idle_state_def)
  have m: "(100 :: nat) \<in> {1..100}" by simp
  note t = poll_trigger_fires_on_tick_101 [OF g]
  from t have "fasongbiaozhi ((Timer0 ^^ 100) idle_state) = fasongbiaozhi idle_state \<and>
               unat (gCount ((Timer0 ^^ 100) idle_state)) = 100"
    using m by blast
  with t g f m show ?thesis by simp
qed

subsection \<open>C5: header mismatch\<close>

text \<open>
  C5: when the buffer the validator reads has \<open>byte[0] \<noteq> 1\<close> or \<open>byte[1] \<noteq> 3\<close> or
  \<open>byte[2] \<noteq> 2\<close>, the validator returns the state as it found it: no checksum is
  computed (\<open>crcData\<close> keeps its value), no reading is decoded and nothing is written to
  the display; the processing block of that cycle only clears the flag and the count.
\<close>

theorem header_mismatch_aborts:
  assumes "receBuf s1 ! 0 \<noteq> 1 \<or> receBuf s1 ! 1 \<noteq> 3 \<or> receBuf s1 ! 2 \<noteq> 2"
    and "UART1_ucRec_Flag s = TRUE" and "wait_loop es s = Some (Inr s1)"
    and "wf_state s"
  shows "validate s1 = Inr s1 \<and>
         process_block es s = Some (Inr (s1\<lparr>UART1_ucRec_Flag := FALSE, receCount := 0\<rparr>)) \<and>
         crcData s1 = crcData s \<and> Rressure s1 = Rressure s \<and> lcd s1 = lcd s"
proof -
  from assms(1) have nh: "\<not> header_ok (receBuf s1)" by (auto simp: header_ok_def)
  then have v: "validate s1 = Inr s1" by (simp add: validate_def)
  from v assms(2,3) wait_loop_frame [OF assms(3)] show ?thesis
    by (simp add: process_block_def)
qed

text \<open>
  C5 at a frame with slave address 2, followed by an eighth byte that ends the wait.
\<close>

theorem header_mismatch_aborts_witness:
  "wf_state received_wrong_address \<and>
   receBuf received_wrong_address ! 0 = 2 \<and>
   UART1_ucRec_Flag received_wrong_address = TRUE \<and>
   wait_loop [Uart_irq False True 0xFF] received_wrong_address =
     Some (Inr (received_wrong_address\<lparr>receBuf := [0x02, 0x03, 0x02, 0x01, 0x2C, 0xB8, 0x09, 0xFF, 0], receCount := 8\<rparr>)) \<and>
   process_block [Uart_irq False True 0xFF] received_wrong_address =
     Some (Inr (received_wrong_address\<lparr>receBuf := [0x02, 0x03, 0x02, 0x01, 0x2C, 0xB8, 0x09, 0xFF, 0], UART1_ucRec_Flag := FALSE, receCount := 0\<rparr>)) \<and>
   lcd received_wrong_address = []"
proof -
  let ?s1 = "received_wrong_address\<lparr>receBuf := [0x02, 0x03, 0x02, 0x01, 0x2C, 0xB8, 0x09, 0xFF, 0], receCount := 8\<rparr>"
  have h: "receBuf ?s1 ! 0 \<noteq> 1 \<or> receBuf ?s1 ! 1 \<noteq> 3 \<or> receBuf ?s1 ! 2 \<noteq> 2" by simp
  have h0: "receBuf received_wrong_address ! 0 = 2" by code_simp
  have fl: "UART1_ucRec_Flag received_wrong_address = TRUE" by code_simp
  have w: "wait_loop [Uart_irq False True 0xFF] received_wrong_address = Some (Inr ?s1)"
    by code_simp
  have l: "lcd received_wrong_address = []" by code_simp
  have wf: "wf_state received_wrong_address" by (rule wf_received)
  from header_mismatch_aborts [OF h fl w wf] h0 fl w l wf show ?thesis by simp
qed

subsection \<open>C6: the checksum function\<close>

text \<open>
  C6: for a length within the buffer, \<open>crc16\<close> returns a value (it has no failure) and
  that value is the one the specification describes, computed from the first \<open>length\<close>
  bytes only: start from high byte \<open>0xFF\<close> and low byte \<open>0xFF\<close>, per input byte take
  \<open>index = high XOR byte\<close>, \<open>high' = low XOR auchCRCHi[index]\<close>,
  \<open>low' = auchCRCLo[index]\<close>, and return \<open>(high << 8) | low\<close>. Two buffers that agree
  on their first \<open>length\<close> bytes have the same checksum.
\<close>

theorem crc16_refines_spec:
  assumes "unat usDataLen \<le> length puchMsg"
  shows "crc16 puchMsg usDataLen = Inr (crc16_spec (take (unat usDataLen) puchMsg)) \<and>
         (take (unat usDataLen) other = take (unat usDataLen) puchMsg \<longrightarrow>
            crc16 other usDataLen = crc16 puchMsg usDataLen)"
proof -
  have a: "crc16 puchMsg usDataLen = Inr (crc16_spec (take (unat usDataLen) puchMsg))"
    using assms by (rule crc16_eq_spec)
  have "crc16 other usDataLen = crc16 puchMsg usDataLen"
    if eq: "take (unat usDataLen) other = take (unat usDataLen) puchMsg"
  proof -
    have "length (take (unat usDataLen) other) = unat usDataLen"
      using assms by (simp add: eq)
    then have "unat usDataLen \<le> length other" by simp
    from crc16_eq_spec [OF this] a eq show ?thesis by simp
  qed
  with a show ?thesis by blast
qed

text \<open>C6 at the first five bytes of the frame for 300.\<close>

theorem crc16_refines_spec_witness:
  "unat (5 :: uint) \<le> length response_300 \<and>
   crc16 response_300 5 = Inr (crc16_spec (take (unat (5 :: uint)) response_300)) \<and>
   crc16 response_300 5 = Inr 0xB809 \<and>
   take (unat (5 :: uint)) (response_300_swapped @ [7, 7]) = take (unat (5 :: uint)) response_300 \<and>
   crc16 (response_300_swapped @ [7, 7]) 5 = crc16 response_300 5"
proof -
  have h: "unat (5 :: uint) \<le> length response_300" by (simp add: response_300_def)
  have e: "take (unat (5 :: uint)) (response_300_swapped @ [7, 7]) = take (unat (5 :: uint)) response_300"
    by (simp add: response_300_def response_300_swapped_def)
  have v: "crc16_spec (take (unat (5 :: uint)) response_300) = 0xB809"
    by (simp add: response_300_def crc16_spec_response_300)
  from crc16_refines_spec [OF h, of "response_300_swapped @ [7, 7]"] h e v
  show ?thesis by simp
qed

subsection \<open>C7: the request frame\<close>

text \<open>
  C7: whenever the ready-to-send flag is 1, the send block appends exactly the eight bytes
  \<open>01 03 00 00 00 01 84 0A\<close> to the transmitted bytes, in that order, leaves the
  direction pin at receive, clears the flag and resets the tick counter; the two trailing
  bytes are the two bytes of \<open>crc16\<close> over the first six.
\<close>

theorem send_block_emits_request:
  assumes "fasongbiaozhi s = 1"
  shows "send_block s =
           s\<lparr>uart_tx := uart_tx s @ request_frame,
              RE_485 := False, fasongbiaozhi := 0, gCount := 0\<rparr> \<and>
         request_frame = [0x01, 0x03, 0x00, 0x00, 0x00, 0x01, 0x84, 0x0A] \<and>
         crc16 (take 6 request_frame) 6 =
           Inr (push_bit 8 (ucast (request_frame ! 6)) OR ucast (request_frame ! 7))"
proof -
  have "crc16 (take 6 request_frame) 6 =
           Inr (push_bit 8 (ucast (request_frame ! 6)) OR ucast (request_frame ! 7))"
    by code_simp
  with assms show ?thesis
    by (simp add: send_block_def UART_SendChar_def Let_def request_frame_def)
qed

text \<open>C7 at a state whose flag is set and whose tick counter reads 3.\<close>

theorem send_block_emits_request_witness:
  "fasongbiaozhi (idle_state\<lparr>fasongbiaozhi := 1, gCount := 3\<rparr>) = 1 \<and>
   send_block (idle_state\<lparr>fasongbiaozhi := 1, gCount := 3\<rparr>) =
     idle_state\<lparr>uart_tx := [0x01, 0x03, 0x00, 0x00, 0x00, 0x01, 0x84, 0x0A]\<rparr>"
proof -
  have f: "fasongbiaozhi (idle_state\<lparr>fasongbiaozhi := 1, gCount := 3\<rparr>) = 1" by simp
  from send_block_emits_request [OF f] show ?thesis
    by (simp add: idle_state_def)
qed

subsection \<open>C8: reset of the receive state\<close>

text \<open>
  C8: when the processing block is entered (the data-available flag is set), every state
  it returns has the flag cleared and the byte count at zero, whether the frame was
  accepted, rejected or cut short by the time-out; the block cannot fault, and it does
  return once ten timer ticks follow whatever interrupts came before.
\<close>

theorem receive_state_reset_on_every_exit:
  assumes "wf_state s" and "UART1_ucRec_Flag s = TRUE"
  shows "(process_block es s = None \<or>
          (\<exists>s'. process_block es s = Some (Inr s') \<and>
                UART1_ucRec_Flag s' = FALSE \<and> receCount s' = 0)) \<and>
         (\<exists>s'. process_block (es @ replicate 10 Timer0_irq) s = Some (Inr s') \<and>
               UART1_ucRec_Flag s' = FALSE \<and> receCount s' = 0)"
proof -
  have gen: "process_block es' s = None \<or>
          (\<exists>s'. process_block es' s = Some (Inr s') \<and>
                UART1_ucRec_Flag s' = FALSE \<and> receCount s' = 0)" for es'
  proof (cases "wait_loop es' s")
    case None
    with assms(2) show ?thesis by (simp add: process_block_def)
  next
    case (Some r)
    with wait_loop_no_fault [OF assms(1), of es'] obtain s1 where "r = Inr s1"
      by (cases r) auto
    with Some have "wait_loop es' s = Some (Inr s1)" by simp
    from process_block_eq [OF assms this] show ?thesis by simp
  qed
  have "process_block (es @ replicate 10 Timer0_irq) s \<noteq> None"
    using wait_loop_returns [of es s] assms(2)
    by (auto simp: process_block_def split: sum.splits)
  with gen [of es] gen [of "es @ replicate 10 Timer0_irq"] show ?thesis by blast
qed

text \<open>
  C8 at a frame with a wrong checksum: without interrupts the wait does not end, with ten
  timer ticks the block returns with flag and count reset.
\<close>

theorem receive_state_reset_on_every_exit_witness:
  "wf_state received_300_swapped \<and> UART1_ucRec_Flag received_300_swapped = TRUE \<and>
   process_block [] received_300_swapped = None \<and>
   (\<exists>s'. process_block ([] @ replicate 10 Timer0_irq) received_300_swapped = Some (Inr s') \<and>
         UART1_ucRec_Flag s' = FALSE \<and> receCount s' = 0)"
proof -
  have wf: "wf_state received_300_swapped" by (rule wf_received)
  have fl: "UART1_ucRec_Flag received_300_swapped = TRUE" by code_simp
  have n: "process_block [] received_300_swapped = None" by code_simp
  from receive_state_reset_on_every_exit [OF wf fl, of "[]"] wf fl n show ?thesis by blast
qed

subsection \<open>C9: the unguarded store of the receive handler\<close>

text \<open>
  C9: the receive branch of \<open>UartInt\<close> stores the byte at \<open>receBuf[receCount]\<close> and
  increments \<open>receCount\<close> without a bounds test; the store lies inside the nine-entry
  buffer exactly when \<open>receCount\<close> is at most 8. Hence from a count of zero, any sequence
  of interrupts with at most nine received bytes runs without an out-of-bounds store, and
  a tenth received byte is stored outside the buffer.
\<close>

theorem UartInt_store_in_bounds:
  assumes "wf_state s"
  shows "UartInt TI True SBUF s =
           (if unat (receCount s) \<le> 8
            then Inr (s\<lparr>UART1_ucRec_Flag := TRUE, receTimeOut := 0,
                         receBuf := (receBuf s)[unat (receCount s) := SBUF],
                         receCount := receCount s + 1\<rparr>)
            else Inl Write_out_of_bounds) \<and>
         (receCount s = 0 \<and> length (filter is_rx es) \<le> 9 \<longrightarrow>
            (\<exists>s'. run_irqs es s = Inr s' \<and>
                  unat (receCount s') = length (filter is_rx es))) \<and>
         (receCount s = 0 \<and> length bytes = 10 \<longrightarrow>
            run_irqs (rx_bytes bytes) s = Inl Write_out_of_bounds)"
proof -
  have a: "UartInt TI True SBUF s =
           (if unat (receCount s) \<le> 8
            then Inr (s\<lparr>UART1_ucRec_Flag := TRUE, receTimeOut := 0,
                         receBuf := (receBuf s)[unat (receCount s) := SBUF],
                         receCount := receCount s + 1\<rparr>)
            else Inl Write_out_of_bounds)"
    using assms by (auto simp: UartInt_rx wf_state_def)
  have b: "\<exists>s'. run_irqs es s = Inr s' \<and> unat (receCount s') = length (filter is_rx es)"
    if "receCount s = 0" "length (filter is_rx es) \<le> 9"
    using run_irqs_in_bounds [OF assms, of es] that by auto
  have c: "run_irqs (rx_bytes bytes) s = Inl Write_out_of_bounds"
    if z: "receCount s = 0" and l: "length bytes = 10"
  proof -
    have rx: "filter is_rx (rx_bytes bs) = rx_bytes bs" for bs
      by (induction bs) (simp_all add: rx_bytes_def)
    have len: "length (rx_bytes bs) = length bs" for bs by (simp add: rx_bytes_def)
    from l obtain front b where bytes: "bytes = front @ [b]" and lf: "length front = 9"
      by (cases bytes rule: rev_cases) auto
    from run_irqs_in_bounds [OF assms, of "rx_bytes front"] z lf
    obtain s1 where s1: "run_irqs (rx_bytes front) s = Inr s1" "wf_state s1"
      "unat (receCount s1) = 9"
      by (auto simp: rx len)
    have app: "run_irqs (xs @ ys) t = (case run_irqs xs t of Inl f \<Rightarrow> Inl f | Inr t' \<Rightarrow> run_irqs ys t')"
      for xs ys t
      by (induction xs arbitrary: t) (auto split: sum.splits)
    have "rx_bytes bytes = rx_bytes front @ [Uart_irq False True b]"
      by (simp add: bytes rx_bytes_def)
    with s1 irq_step_overrun [OF s1(2), of "Uart_irq False True b"] show ?thesis
      by (simp add: app)
  qed
  from a b c show ?thesis by blast
qed

text \<open>
  C9 at the idle state: seven bytes and a timer tick stay in bounds, ten bytes do not.
\<close>

theorem UartInt_store_in_bounds_witness:
  "wf_state idle_state \<and> receCount idle_state = 0 \<and>
   length (filter is_rx (rx_bytes response_300 @ [Timer0_irq])) \<le> 9 \<and>
   UartInt False True 0x01 idle_state =
     Inr (idle_state\<lparr>UART1_ucRec_Flag := TRUE, receBuf := [0x01, 0, 0, 0, 0, 0, 0, 0, 0],
                      receCount := 1\<rparr>) \<and>
   (\<exists>s'. run_irqs (rx_bytes response_300 @ [Timer0_irq]) idle_state = Inr s' \<and>
         unat (receCount s') = 7) \<and>
   length (response_300 @ [0x00, 0x00, 0x00]) = 10 \<and>
   run_irqs (rx_bytes (response_300 @ [0x00, 0x00, 0x00])) idle_state = Inl Write_out_of_bounds"
proof -
  have wf: "wf_state idle_state" by (rule wf_received)
  have z: "receCount idle_state = 0" by code_simp
  have n: "length (filter is_rx (rx_bytes response_300 @ [Timer0_irq])) = 7" by code_simp
  have l: "length (response_300 @ [0x00, 0x00, 0x00 :: uchar]) = 10" by code_simp
  have u: "unat (receCount idle_state) \<le> 8" by code_simp
  have st: "idle_state\<lparr>UART1_ucRec_Flag := TRUE, receTimeOut := 0,
                         receBuf := (receBuf idle_state)[unat (receCount idle_state) := 0x01],
                         receCount := receCount idle_state + 1\<rparr> =
            idle_state\<lparr>UART1_ucRec_Flag := TRUE, receBuf := [0x01, 0, 0, 0, 0, 0, 0, 0, 0],
                      receCount := 1\<rparr>" by code_simp
  from UartInt_store_in_bounds [OF wf, of False "0x01" "rx_bytes response_300 @ [Timer0_irq]"
      "response_300 @ [0x00, 0x00, 0x00]"] wf z n l u st
  show ?thesis by simp
qed

subsection \<open>C10: the reading changes only together with the display\<close>

text \<open>
  C10 as stated counts a short frame among the cycles that leave the reading and the
  display alone. When the seven bytes of the frame for 300 arrive and ten silent
  milliseconds follow, the wait ends on the time-out with seven bytes counted, and the
  block changes \<open>Rressure\<close> from 0 to 300 and writes the display. When a single byte
  \<open>01\<close> then arrives and is followed by ten silent milliseconds, the buffer still holds
  the earlier frame, and the block writes the display once more.
\<close>

theorem short_frame_changes_reading_counterexample:
  "UartInt False True 0x01 idle_state = Inr first_byte_300 \<and>
   Rressure first_byte_300 = 0 \<and> lcd first_byte_300 = [] \<and>
   wait_loop (rx_bytes (tl response_300) @ silence) first_byte_300 =
     Some (Inr (received_300\<lparr>receTimeOut := 10, gCount := 10\<rparr>)) \<and>
   process_block (rx_bytes (tl response_300) @ silence) first_byte_300 = Some (Inr shown_300) \<and>
   Rressure shown_300 = 300 \<and>
   lcd shown_300 = [Cmd 0xC5, Dat 0x30, Dat 0x30, Dat 0x33, Dat 0x30, Dat 0x30] \<and>
   UartInt False True 0x01 shown_300 =
     Inr (shown_300\<lparr>UART1_ucRec_Flag := TRUE, receTimeOut := 0, receCount := 1\<rparr>) \<and>
   wait_loop silence (shown_300\<lparr>UART1_ucRec_Flag := TRUE, receTimeOut := 0, receCount := 1\<rparr>) =
     Some (Inr (shown_300\<lparr>UART1_ucRec_Flag := TRUE, receTimeOut := 10, receCount := 1,
                          gCount := 20\<rparr>)) \<and>
   process_block silence
       (shown_300\<lparr>UART1_ucRec_Flag := TRUE, receTimeOut := 0, receCount := 1\<rparr>) =
     Some (Inr (shown_300\<lparr>gCount := 20,
                  lcd := [Cmd 0xC5, Dat 0x30, Dat 0x30, Dat 0x33, Dat 0x30, Dat 0x30,
                          Cmd 0xC5, Dat 0x30, Dat 0x30, Dat 0x33, Dat 0x30, Dat 0x30]\<rparr>))"
  by code_simp

text \<open>
  C10, amended: in every cycle of the processing block, if the header test or the
  checksum test fails on the buffer as the busy wait leaves it (whether the frame is
  complete or cut short by the time-out), the stored reading \<open>Rressure\<close> and the display
  keep their previous values; if both tests pass, also on a short frame, \<open>Rressure\<close> is
  written and the display is written with it. So \<open>Rressure\<close> is modified only on the
  path that performs the display update. The block returns in this way whenever it
  returns, and it does return once ten timer ticks follow whatever interrupts came before.
\<close>

theorem failed_validation_keeps_reading:
  assumes "wf_state s" and "UART1_ucRec_Flag s = TRUE"
  shows "(process_block es s = None \<or>
          (\<exists>s1 s'. wait_loop es s = Some (Inr s1) \<and>
             process_block es s = Some (Inr s') \<and>
             (if header_ok (receBuf s1) \<and> crc_ok (receBuf s1)
              then Rressure s' = pressure_of (receBuf s1) \<and>
                   lcd s' = lcd s @ display_update (pressure_of (receBuf s1))
              else Rressure s' = Rressure s \<and> lcd s' = lcd s))) \<and>
         (\<exists>s1 s'. wait_loop (es @ replicate 10 Timer0_irq) s = Some (Inr s1) \<and>
             process_block (es @ replicate 10 Timer0_irq) s = Some (Inr s') \<and>
             (if header_ok (receBuf s1) \<and> crc_ok (receBuf s1)
              then Rressure s' = pressure_of (receBuf s1) \<and>
                   lcd s' = lcd s @ display_update (pressure_of (receBuf s1))
              else Rressure s' = Rressure s \<and> lcd s' = lcd s))"
proof -
  have gen: "process_block es' s = None \<or>
          (\<exists>s1 s'. wait_loop es' s = Some (Inr s1) \<and>
             process_block es' s = Some (Inr s') \<and>
             (if header_ok (receBuf s1) \<and> crc_ok (receBuf s1)
              then Rressure s' = pressure_of (receBuf s1) \<and>
                   lcd s' = lcd s @ display_update (pressure_of (receBuf s1))
              else Rressure s' = Rressure s \<and> lcd s' = lcd s))" for es'
  proof (cases "wait_loop es' s")
    case None
    with assms(2) show ?thesis by (simp add: process_block_def)
  next
    case (Some r)
    with wait_loop_no_fault [OF assms(1), of es'] obtain s1 where "r = Inr s1"
      by (cases r) auto
    with Some have w: "wait_loop es' s = Some (Inr s1)" by simp
    from process_block_eq [OF assms w] w show ?thesis
      by (simp add: frame_ok_def)
  qed
  have "process_block (es @ replicate 10 Timer0_irq) s \<noteq> None"
    using wait_loop_returns [of es s] assms(2)
    by (auto simp: process_block_def split: sum.splits)
  with gen [of es] gen [of "es @ replicate 10 Timer0_irq"] show ?thesis by blast
qed

text \<open>
  The amended C10 at a frame with a wrong checksum: without interrupts the wait does not
  end; cut off by the time-out, the frame is rejected and reading and display are kept.
\<close>

theorem failed_validation_keeps_reading_witness:
  "wf_state received_300_swapped \<and> UART1_ucRec_Flag received_300_swapped = TRUE \<and>
   process_block [] received_300_swapped = None \<and>
   wait_loop ([] @ replicate 10 Timer0_irq) received_300_swapped =
     Some (Inr (received_300_swapped\<lparr>receTimeOut := 10, gCount := 10\<rparr>)) \<and>
   header_ok (receBuf (received_300_swapped\<lparr>receTimeOut := 10, gCount := 10\<rparr>)) \<and>
   \<not> crc_ok (receBuf (received_300_swapped\<lparr>receTimeOut := 10, gCount := 10\<rparr>)) \<and>
   (\<exists>s'. process_block ([] @ replicate 10 Timer0_irq) received_300_swapped = Some (Inr s') \<and>
         Rressure s' = Rressure received_300_swapped \<and> lcd s' = lcd received_300_swapped)"
proof -
  let ?s1 = "received_300_swapped\<lparr>receTimeOut := 10, gCount := 10\<rparr>"
  have wf: "wf_state received_300_swapped" by (rule wf_received)
  have fl: "UART1_ucRec_Flag received_300_swapped = TRUE" by code_simp
  have n: "process_block [] received_300_swapped = None" by code_simp
  have w: "wait_loop ([] @ replicate 10 Timer0_irq) received_300_swapped = Some (Inr ?s1)"
    by code_simp
  have b: "receBuf ?s1 = response_300_swapped @ [0, 0]" by code_simp
  have h: "header_ok (receBuf ?s1)" by code_simp
  have nc: "\<not> crc_ok (receBuf ?s1)" using not_crc_ok_swapped [of 0 0] by (simp add: b)
  from failed_validation_keeps_reading [OF wf fl, of "[]"]
  obtain s1 s' where r: "wait_loop ([] @ replicate 10 Timer0_irq) received_300_swapped = Some (Inr s1)"
    "process_block ([] @ replicate 10 Timer0_irq) received_300_swapped = Some (Inr s')"
    "if header_ok (receBuf s1) \<and> crc_ok (receBuf s1)
     then Rressure s' = pressure_of (receBuf s1) \<and>
          lcd s' = lcd received_300_swapped @ display_update (pressure_of (receBuf s1))
     else Rressure s' = Rressure received_300_swapped \<and> lcd s' = lcd received_300_swapped"
    by blast
  from r(1) w have "s1 = ?s1" by simp
  with r nc have "Rressure s' = Rressure received_300_swapped \<and> lcd s' = lcd received_300_swapped"
    by simp
  with wf fl n w h nc r(2) show ?thesis by blast
qed

end
